theory Spec2Isabelle
  imports Main "HOL-Library.Code_Target_Numeral"
begin

section \<open>Strings\<close>

text \<open>
  A JavaScript string is modelled as a \<^typ>\<open>string\<close>: one \<^typ>\<open>char\<close> per code unit, for
  code units below 256. Everything the program compares against (digits, the space, the
  line feed, its own literals) lies in that range.
\<close>

definition is_digit :: "char \<Rightarrow> bool" where
  \<comment> \<open>the character class \<open>[0-9]\<close>\<close>
  "is_digit c = (c \<in> set ''0123456789'')"

definition is_space :: "char \<Rightarrow> bool" where
  \<comment> \<open>white space and line terminators of ECMAScript among the code units below 256:
      TAB, LF, VT, FF, CR, SP and NBSP\<close>
  "is_space c = (c \<in> set [CHR 0x09, CHR 0x0A, CHR 0x0B, CHR 0x0C, CHR 0x0D, CHR 0x20, CHR 0xA0])"

definition trim :: "string \<Rightarrow> string" where
  \<comment> \<open>\<open>String.prototype.trim\<close>\<close>
  "trim s = rev (dropWhile is_space (rev (dropWhile is_space s)))"

fun split_str :: "char \<Rightarrow> string \<Rightarrow> string list" where
  \<comment> \<open>\<open>s.split(c)\<close> for a separator of one character: the empty string gives one empty
      piece, and a trailing separator gives a last empty piece; the result is never empty,
      so the second branch of the \<open>case\<close> is never taken\<close>
  "split_str sep [] = [[]]"
| "split_str sep (x # xs) =
     (if x = sep then [] # split_str sep xs
      else (case split_str sep xs of piece # pieces \<Rightarrow> (x # piece) # pieces | [] \<Rightarrow> [[x]]))"

fun join_str :: "string \<Rightarrow> string list \<Rightarrow> string" where
  \<comment> \<open>\<open>Array.prototype.join\<close>\<close>
  "join_str sep [] = []"
| "join_str sep [x] = x"
| "join_str sep (x # y # ys) = x @ sep @ join_str sep (y # ys)"

definition line_feed :: char where
  "line_feed = CHR 0x0A"

section \<open>Effects\<close>

text \<open>
  The program acts on the world in two ways: it hands command lines to \<open>exec\<close> and it
  writes to the logger. Both are recorded, in order, in a trace. What \<open>exec\<close> answers is
  up to the world: a \<open>shell\<close> maps the commands already executed and the command at hand
  to the triple \<open>(stdout, stderr, error)\<close> that \<open>exec\<close> passes to its callback.

  \<open>exec\<close> checks its argument before it starts anything: for the empty string and for a
  string that holds a NUL byte it throws, synchronously, and no process is started. The
  source calls \<open>exec\<close> inside a promise executor without any handler, so the promise of
  \<open>run\<close> is then rejected, every \<open>await\<close> on the way up passes the rejection on, and
  the program ends there. The trace records this as a last event \<open>Threw\<close>.
\<close>

datatype js_error = JsError string

type_synonym exec_result = "string \<times> string \<times> js_error option"

datatype level = LDebug | LInfo | LWarn | LError

datatype fmt_arg = Str string | Num nat

datatype event =
    Log level string "fmt_arg list"
  | Exec string exec_result
  | Threw string

type_synonym shell = "string list \<Rightarrow> string \<Rightarrow> exec_result"

fun exec_cmds :: "event list \<Rightarrow> string list" where
  "exec_cmds [] = []"
| "exec_cmds (Log l m as # tr) = exec_cmds tr"
| "exec_cmds (Exec c r # tr) = c # exec_cmds tr"
| "exec_cmds (Threw c # tr) = exec_cmds tr"


definition exec_throws :: "string \<Rightarrow> bool" where
  \<comment> \<open>the commands \<open>exec\<close> refuses with \<open>ERR_INVALID_ARG_VALUE\<close>\<close>
  "exec_throws cmd = (cmd = [] \<or> CHR 0x00 \<in> set cmd)"

definition invalid_arg :: js_error where
  "invalid_arg = JsError ''ERR_INVALID_ARG_VALUE''"

definition rejected :: "event list \<Rightarrow> bool" where
  \<comment> \<open>the run has ended with a rejection: its last event is \<open>Threw\<close>\<close>
  "rejected tr = (case rev tr of Threw c # earlier \<Rightarrow> True | _ \<Rightarrow> False)"

section \<open>The process runner\<close>

text \<open>
  Both runners return a promise: \<open>Inr\<close> is the triple it resolves with, \<open>Inl\<close> the error
  it is rejected with.
\<close>

definition run :: "shell \<Rightarrow> string \<Rightarrow> event list \<Rightarrow> (js_error + exec_result) \<times> event list" where
  "run sh cmd tr =
     (if exec_throws cmd then (Inl invalid_arg, tr @ [Threw cmd])
      else
        (case sh (exec_cmds tr) cmd of (stdout, stderr, error) \<Rightarrow>
           (Inr (stdout, stderr, error),
            tr @ [Exec cmd (stdout, stderr, error)]
               @ map (\<lambda>line. Log LDebug line []) (split_str line_feed stdout))))"

definition runPrintErrors ::
  "shell \<Rightarrow> string \<Rightarrow> event list \<Rightarrow> (js_error + exec_result) \<times> event list" where
  "runPrintErrors sh cmd tr =
     (case run sh cmd tr of
        (Inl err, tr1) \<Rightarrow> (Inl err, tr1)
      | (Inr (stdout, stderr, error), tr1) \<Rightarrow>
          (Inr (stdout, stderr, error),
           if error \<noteq> None \<or> length stderr \<noteq> 0
           then tr1 @ map (\<lambda>line. Log LError (trim line) [])
                          (filter (\<lambda>line. length (trim line) \<noteq> 0) (split_str line_feed stderr))
           else tr1))"

section \<open>Reading the audit report\<close>

function match_digit_runs :: "string \<Rightarrow> string list" where
  \<comment> \<open>all matches of \<open>/([0-9]*)/gm\<close>, left to right: at each position the longest run of
      digits, which may be empty; after an empty match the search moves on by one character,
      and the end of the string is one more (empty) match\<close>
  "match_digit_runs [] = [[]]"
| "match_digit_runs (c # cs) =
     (if is_digit c
      then (c # takeWhile is_digit cs) # match_digit_runs (dropWhile is_digit cs)
      else [] # match_digit_runs cs)"
  by pat_completeness auto
termination
  by (relation "measure length") (auto simp: length_dropWhile_le less_Suc_eq_le)

definition str_match :: "string \<Rightarrow> string list option" where
  \<comment> \<open>\<open>stdout.match(/([0-9]*)/gm)\<close>: \<open>null\<close> when there is no match at all\<close>
  "str_match s = (let ms = match_digit_runs s in if ms = [] then None else Some ms)"

definition digit_val :: "char \<Rightarrow> nat" where
  "digit_val c = of_char c - 48"

text \<open>
  A JavaScript number, as far as this program can tell numbers apart: \<open>NaN\<close>; an integer
  up to \<open>2 ^ 53\<close>, which a double holds exactly; or a number beyond that, where the double
  is only the nearest one to the digits read (or \<open>Infinity\<close>) and the model does not say
  which. A number beyond \<open>2 ^ 53\<close> is in any case not 0.
\<close>

datatype js_number = NaN | Exact nat | Beyond

definition parseInt :: "string \<Rightarrow> js_number" where
  \<comment> \<open>\<open>parseInt\<close> on a string that starts with neither white space, a sign nor \<open>0x\<close>:
      the number written by the longest leading run of decimal digits, as a double, and
      \<open>NaN\<close> when that run is empty\<close>
  "parseInt s =
     (let ds = takeWhile is_digit s
      in if ds = [] then NaN
         else (let v = foldl (\<lambda>acc c. acc * 10 + digit_val c) 0 ds
               in if v \<le> 2 ^ 53 then Exact v else Beyond))"

definition first_match_or_zero :: "string list \<Rightarrow> string" where
  \<comment> \<open>\<open>matcher[0] || '0'\<close>: a missing or empty first match gives \<open>'0'\<close>\<close>
  "first_match_or_zero matcher =
     (case matcher of [] \<Rightarrow> ''0'' | m0 # ms \<Rightarrow> if m0 = [] then ''0'' else m0)"

definition check_for_vulnerabilities :: "string \<Rightarrow> bool" where
  "check_for_vulnerabilities stdout =
     (case str_match stdout of
        None \<Rightarrow> False
      | Some matcher \<Rightarrow> parseInt (first_match_or_zero matcher) \<noteq> Exact 0)"

section \<open>Planning the commands\<close>

definition standardDevDependencies :: "string list" where
  "standardDevDependencies =
     [''@types/mocha'', ''@types/node'', ''@typescript-eslint/eslint-plugin'',
      ''@typescript-eslint/parser'', ''eslint'', ''eslint-config-standard'',
      ''eslint-plugin-import'', ''eslint-plugin-n'', ''eslint-plugin-node'',
      ''eslint-plugin-promise'', ''mocha'', ''ts-node'', ''typedoc'', ''typescript'']"

definition format_dep :: "string list \<Rightarrow> bool \<Rightarrow> string" where
  "format_dep dependencies latest =
     join_str '' '' (if latest then map (\<lambda>dep. dep @ ''@latest'') dependencies else dependencies)"

record pm_flags =
  yarn :: "string option"
  npm :: "string option"

record category =
  name :: string
  items :: "string list"
  flags :: "pm_flags option"

text \<open>
  The manifest, once \<open>require\<close> has loaded it: each of the four sub-mappings is absent
  (\<open>None\<close>) or present with its keys in the order \<open>Object.keys\<close> lists them.
\<close>

record manifest =
  cfg_dependencies :: "string list option"
  cfg_devDependencies :: "string list option"
  cfg_peerDependencies :: "string list option"
  cfg_optionalDependencies :: "string list option"

definition keys_or_empty :: "string list option \<Rightarrow> string list" where
  \<comment> \<open>\<open>Object.keys(m ?? [])\<close>\<close>
  "keys_or_empty m = (case m of None \<Rightarrow> [] | Some ks \<Rightarrow> ks)"

definition dependencies :: "manifest \<Rightarrow> category list" where
  "dependencies config =
     [\<lparr>name = ''dependencies'',
       items = keys_or_empty (cfg_dependencies config),
       flags = Some \<lparr>yarn = None, npm = Some ''--save''\<rparr>\<rparr>,
      \<lparr>name = ''development dependencies'',
       items = keys_or_empty (cfg_devDependencies config),
       flags = Some \<lparr>yarn = Some ''--dev'', npm = Some ''--save-dev''\<rparr>\<rparr>,
      \<lparr>name = ''peer dependencies'',
       items = keys_or_empty (cfg_peerDependencies config),
       flags = Some \<lparr>yarn = Some ''--peer'', npm = None\<rparr>\<rparr>,
      \<lparr>name = ''optional dependencies'',
       items = keys_or_empty (cfg_optionalDependencies config),
       flags = Some \<lparr>yarn = Some ''--optional'', npm = Some ''--save-optional''\<rparr>\<rparr>]"

text \<open>
  A path of the file system, as \<open>resolve\<close> returns it from the directory of the running
  module: it is not empty and holds no NUL byte.
\<close>

typedef fs_path = "{p :: string. p \<noteq> [] \<and> CHR 0x00 \<notin> set p}"
  by (rule exI [of _ "''/''"]) simp

setup_lifting type_definition_fs_path

text \<open>
  What a run starts from: the two lockfile probes, the two command-line switches
  (\<open>setup_mode\<close> is the source's \<open>setup\<close>), the
  loaded manifest, and the resolved path of the \<open>yarn-audit-fix\<close> executable
  (\<open>resolve(`${swd}/../node_modules/.bin/yarn-audit-fix`)\<close>).
\<close>

record env =
  is_yarn :: bool
  is_npm :: bool
  latest :: bool
  setup_mode :: bool
  config :: manifest
  yarn_audit_fix :: fs_path

text \<open>
  How a run ends: with \<open>process.exit\<close>, by returning from the main function, or with the
  promise of the main function rejected by an exception of \<open>exec\<close>.
\<close>

datatype outcome = ProcessExit nat | Returned | Rejected

definition select_cmd :: "env \<Rightarrow> event list \<Rightarrow> (nat + string) \<times> event list" where
  \<comment> \<open>the lockfile checks: \<open>Inl code\<close> is \<open>process.exit(code)\<close>, \<open>Inr cmd\<close> the base command\<close>
  "select_cmd e tr =
     (if is_npm e \<and> is_yarn e then
        (Inl 1, tr @ [Log LError ''Cannot run while both yarn.lock and package-lock.json both exist...'' []])
      else if is_npm e then
        (Inr ''npm install'', tr @ [Log LWarn ''NPM detected...'' []])
      else if is_yarn e then
        (Inr (if \<not> latest e then ''yarn upgrade'' else ''yarn add''),
         tr @ [Log LWarn ''Yarn detected...'' []])
      else if \<not> setup_mode e then
        (Inl 1, tr @ [Log LError ''Cannot detect package management system'' []])
      else (Inr ''yarn'', tr))"

fun report_found :: "category list \<Rightarrow> event list \<Rightarrow> event list" where
  "report_found [] tr = tr"
| "report_found (category # rest) tr =
     report_found rest
       (if length (items category) \<noteq> 0
        then tr @ [Log LInfo ''Found %s'' [Str (name category)]]
                @ map (\<lambda>dependency. Log LInfo ([CHR 0x09, CHR 0x09] @ ''%s'') [Str dependency])
                      (items category)
        else tr)"

definition or_empty :: "string option \<Rightarrow> string" where
  \<comment> \<open>\<open>x || ''\<close>\<close>
  "or_empty x = (case x of None \<Rightarrow> [] | Some s \<Rightarrow> if s = [] then [] else s)"

definition flag_yarn :: "category \<Rightarrow> string option" where
  \<comment> \<open>\<open>category.flags?.yarn\<close>\<close>
  "flag_yarn c = (case flags c of None \<Rightarrow> None | Some f \<Rightarrow> yarn f)"

definition flag_npm :: "category \<Rightarrow> string option" where
  \<comment> \<open>\<open>category.flags?.npm\<close>\<close>
  "flag_npm c = (case flags c of None \<Rightarrow> None | Some f \<Rightarrow> npm f)"

definition command_line :: "env \<Rightarrow> string \<Rightarrow> category \<Rightarrow> string" where
  "command_line e cmd c =
     cmd @ '' '' @ (if is_yarn e then or_empty (flag_yarn c) else or_empty (flag_npm c))
         @ '' '' @ format_dep (items c) (latest e)"

text \<open>
  The two loops and the main function await the runners. An \<open>await\<close> on a rejected promise
  throws, nothing in the source catches it, and so the loop and the main function end
  there: the loops return the trace as it is, with \<open>Threw\<close> as its last event, and the main
  function tests for that event before it goes on.
\<close>

fun update_loop :: "env \<Rightarrow> shell \<Rightarrow> string \<Rightarrow> category list \<Rightarrow> event list \<Rightarrow> event list" where
  "update_loop e sh cmd [] tr = tr"
| "update_loop e sh cmd (c # rest) tr =
     (if length (items c) = 0 then update_loop e sh cmd rest tr
      else (case run sh (command_line e cmd c) (tr @ [Log LWarn (command_line e cmd c) []]) of
              (Inl err, tr1) \<Rightarrow> tr1
            | (Inr res, tr1) \<Rightarrow> update_loop e sh cmd rest tr1))"

function audit_loop :: "env \<Rightarrow> shell \<Rightarrow> nat \<Rightarrow> event list \<Rightarrow> event list" where
  "audit_loop e sh i tr =
     (if i < 2 then
        (let tr1 = tr @ [Log LWarn ''Running audit checks... attempt #%s'' [Num (i + 1)]]
         in case (if is_npm e then runPrintErrors sh ''npm audit'' tr1
                  else runPrintErrors sh ''yarn audit'' tr1) of
              (Inl err, tr2) \<Rightarrow> tr2
            | (Inr res, tr2) \<Rightarrow>
                (let run_fix = check_for_vulnerabilities (fst res)
                 in if run_fix then
                      (let tr3 = tr2 @ [Log LWarn ''Attempting audit fixes...'' []]
                       in case (if is_npm e then runPrintErrors sh ''npm audit fix'' tr3
                                else runPrintErrors sh (Rep_fs_path (yarn_audit_fix e)) tr3) of
                            (Inl err, tr4) \<Rightarrow> tr4
                          | (Inr fixed, tr4) \<Rightarrow> audit_loop e sh (i + 1) tr4)
                    else tr2))
      else tr)"
  by pat_completeness auto
termination
  by (relation "measure (\<lambda>(e, sh, i, tr). 2 - i)") auto

declare audit_loop.simps [simp del]

definition main :: "env \<Rightarrow> shell \<Rightarrow> outcome \<times> event list" where
  "main e sh =
     (case select_cmd e [] of
        (Inl code, tr) \<Rightarrow> (ProcessExit code, tr)
      | (Inr cmd, tr) \<Rightarrow>
          (let tr1 = report_found (dependencies (config e)) tr
           in if setup_mode e then
                (let tr2 = tr1 @ [Log LInfo ''Setting up standard development dependencies...'' []]
                 in case (if is_npm e then
                            run sh (''npm install --save --dev ''
                                    @ format_dep standardDevDependencies (latest e)) tr2
                          else
                            run sh (''yarn add --dev ''
                                    @ format_dep standardDevDependencies (latest e)) tr2) of
                      (Inl err, tr3) \<Rightarrow> (Rejected, tr3)
                    | (Inr res, tr3) \<Rightarrow> (Returned, tr3))
              else
                (let tr2 = tr1 @ [if latest e
                                  then Log LWarn ''Set to update all dependencies to the latest version...'' []
                                  else Log LWarn ''Set to update all dependencies to latest version within the rules in package.json...'' []];
                     tr3 = update_loop e sh cmd (dependencies (config e)) tr2
                 in if rejected tr3 then (Rejected, tr3)
                    else (let tr4 = audit_loop e sh 0 tr3
                          in if rejected tr4 then (Rejected, tr4) else (Returned, tr4)))))"

section \<open>Observations and examples\<close>

text \<open>
  The two commands of the audit loop, as its branches on \<open>is_npm\<close> choose them.
\<close>

definition audit_cmd :: "env \<Rightarrow> string" where
  "audit_cmd e = (if is_npm e then ''npm audit'' else ''yarn audit'')"

definition fix_cmd :: "env \<Rightarrow> string" where
  "fix_cmd e = (if is_npm e then ''npm audit fix'' else Rep_fs_path (yarn_audit_fix e))"

text \<open>
  The commands of an audit loop that starts after the commands \<open>h\<close>, read off the
  answers of the shell.
\<close>

definition audit_tail :: "env \<Rightarrow> shell \<Rightarrow> string list \<Rightarrow> string list" where
  "audit_tail e sh h =
     (if \<not> check_for_vulnerabilities (fst (sh h (audit_cmd e))) then [audit_cmd e]
      else if \<not> check_for_vulnerabilities (fst (sh (h @ [audit_cmd e, fix_cmd e]) (audit_cmd e)))
      then [audit_cmd e, fix_cmd e, audit_cmd e]
      else [audit_cmd e, fix_cmd e, audit_cmd e, fix_cmd e])"

definition update_count :: "env \<Rightarrow> nat" where
  \<comment> \<open>how many categories of the manifest have items\<close>
  "update_count e = length (filter (\<lambda>c. items c \<noteq> []) (dependencies (config e)))"

text \<open>
  The command lines of the update loop in update mode, one for each category with items,
  in the order of the categories.
\<close>

definition update_lines :: "env \<Rightarrow> string list" where
  "update_lines e =
     map (command_line e (if is_npm e then ''npm install''
                          else if latest e then ''yarn add'' else ''yarn upgrade''))
         (filter (\<lambda>c. items c \<noteq> []) (dependencies (config e)))"

text \<open>
  The vulnerability count in the specification's words: the leading run of digits read as
  a decimal number, an empty run being zero.
\<close>

primrec dec_value :: "string \<Rightarrow> nat" where
  "dec_value [] = 0"
| "dec_value (c # cs) = digit_val c * 10 ^ length cs + dec_value cs"

definition leading_count :: "string \<Rightarrow> nat" where
  "leading_count s = dec_value (takeWhile is_digit s)"

text \<open>A world in which every command prints the same text and succeeds silently.\<close>

definition printing_shell :: "string \<Rightarrow> shell" where
  "printing_shell out = (\<lambda>h c. (out, [], None))"


text \<open>Where \<open>yarn-audit-fix\<close> is installed in the examples.\<close>

lift_definition installed_fix :: fs_path is "''/opt/depupdate/node_modules/.bin/yarn-audit-fix''"
  by simp

definition npm_project :: env where
  "npm_project =
     \<lparr>is_yarn = False, is_npm = True, latest = False, setup_mode = False,
      config = \<lparr>cfg_dependencies = Some [''express''], cfg_devDependencies = None,
                cfg_peerDependencies = Some [''react''], cfg_optionalDependencies = None\<rparr>,
      yarn_audit_fix = installed_fix\<rparr>"

definition yarn_project :: env where
  "yarn_project =
     \<lparr>is_yarn = True, is_npm = False, latest = True, setup_mode = False,
      config = \<lparr>cfg_dependencies = Some [''left-pad''], cfg_devDependencies = Some [''mocha'', ''chai''],
                cfg_peerDependencies = None, cfg_optionalDependencies = None\<rparr>,
      yarn_audit_fix = installed_fix\<rparr>"

definition bare_npm_project :: env where
  "bare_npm_project =
     \<lparr>is_yarn = False, is_npm = True, latest = False, setup_mode = False,
      config = \<lparr>cfg_dependencies = None, cfg_devDependencies = Some [],
                cfg_peerDependencies = None, cfg_optionalDependencies = None\<rparr>,
      yarn_audit_fix = installed_fix\<rparr>"



definition both_locks :: env where
  "both_locks = npm_project\<lparr>is_yarn := True\<rparr>"

definition no_lock :: env where
  "no_lock = npm_project\<lparr>is_npm := False\<rparr>"

section \<open>The commands a run executes\<close>

lemma exec_cmds_append: "exec_cmds (a @ b) = exec_cmds a @ exec_cmds b"
  by (induction a rule: exec_cmds.induct) simp_all

lemma exec_cmds_logs: "exec_cmds (map (\<lambda>x. Log l (f x) (g x)) xs) = []"
  by (induction xs) simp_all

lemma split_str_nonempty: "split_str sep s \<noteq> []"
  by (induction s) (auto split: list.splits)

lemma rejected_last: "rejected tr = (tr \<noteq> [] \<and> (\<exists>c. last tr = Threw c))"
proof (cases tr rule: rev_cases)
  case Nil
  then show ?thesis by (simp add: rejected_def)
next
  case (snoc earlier ev)
  then show ?thesis by (cases ev) (simp_all add: rejected_def)
qed

lemma rejected_threw: "rejected (tr @ [Threw c])"
  by (simp add: rejected_last)

lemma rejected_log: "\<not> rejected (tr @ [Log l m a])"
  by (simp add: rejected_last)

lemma rejected_logs:
  "xs \<noteq> [] \<Longrightarrow> \<not> rejected (tr @ map (\<lambda>x. Log l (f x) []) xs)"
  by (simp add: rejected_last last_map)

lemma rejected_more_logs:
  "\<not> rejected tr \<Longrightarrow> \<not> rejected (tr @ map (\<lambda>x. Log l (f x) []) xs)"
  by (cases "xs = []") (simp_all add: rejected_last last_map)

lemma audit_cmd_accepted: "\<not> exec_throws (audit_cmd e)"
  by (simp add: audit_cmd_def exec_throws_def)

lemma fix_cmd_accepted: "\<not> exec_throws (fix_cmd e)"
  using Rep_fs_path [of "yarn_audit_fix e"] by (simp add: fix_cmd_def exec_throws_def)

lemma run_refused: "exec_throws cmd \<Longrightarrow> run sh cmd tr = (Inl invalid_arg, tr @ [Threw cmd])"
  by (simp add: run_def)

lemma fst_run: "\<not> exec_throws cmd \<Longrightarrow> fst (run sh cmd tr) = Inr (sh (exec_cmds tr) cmd)"
  by (simp add: run_def split: prod.splits)

lemma exec_cmds_run:
  "exec_cmds (snd (run sh cmd tr)) = exec_cmds tr @ (if exec_throws cmd then [] else [cmd])"
  by (simp add: run_def exec_cmds_append exec_cmds_logs split: prod.splits)

lemma rejected_run: "\<not> exec_throws cmd \<Longrightarrow> \<not> rejected (snd (run sh cmd tr))"
  using rejected_logs [of "split_str line_feed (fst (sh (exec_cmds tr) cmd))"
      "tr @ [Exec cmd (sh (exec_cmds tr) cmd)]" LDebug "\<lambda>line. line"]
  by (auto simp: run_def split_str_nonempty split: prod.splits)


lemma run_cases:
  assumes "\<not> exec_throws cmd"
  obtains tr1 where "run sh cmd tr = (Inr (sh (exec_cmds tr) cmd), tr1)"
    and "exec_cmds tr1 = exec_cmds tr @ [cmd]" and "\<not> rejected tr1"
proof -
  have "run sh cmd tr = (Inr (sh (exec_cmds tr) cmd), snd (run sh cmd tr))"
    using fst_run [OF assms, of sh tr] by (simp add: prod_eq_iff)
  moreover have "exec_cmds (snd (run sh cmd tr)) = exec_cmds tr @ [cmd]"
    using assms by (simp add: exec_cmds_run)
  ultimately show ?thesis using that rejected_run [OF assms] by blast
qed

lemma fst_runPrintErrors:
  "\<not> exec_throws cmd \<Longrightarrow> fst (runPrintErrors sh cmd tr) = Inr (sh (exec_cmds tr) cmd)"
  by (rule run_cases [of cmd sh tr]) (auto simp: runPrintErrors_def split: prod.splits)

lemma exec_cmds_runPrintErrors:
  "\<not> exec_throws cmd \<Longrightarrow> exec_cmds (snd (runPrintErrors sh cmd tr)) = exec_cmds tr @ [cmd]"
  by (rule run_cases [of cmd sh tr])
     (auto simp: runPrintErrors_def exec_cmds_append exec_cmds_logs split: prod.splits)

lemma rejected_runPrintErrors:
  "\<not> exec_throws cmd \<Longrightarrow> \<not> rejected (snd (runPrintErrors sh cmd tr))"
  by (rule run_cases [of cmd sh tr])
     (auto simp: runPrintErrors_def rejected_more_logs split: prod.splits)

lemma runPrintErrors_cases:
  assumes "\<not> exec_throws cmd"
  obtains tr1 where "runPrintErrors sh cmd tr = (Inr (sh (exec_cmds tr) cmd), tr1)"
    and "exec_cmds tr1 = exec_cmds tr @ [cmd]" and "\<not> rejected tr1"
proof -
  have "runPrintErrors sh cmd tr =
          (Inr (sh (exec_cmds tr) cmd), snd (runPrintErrors sh cmd tr))"
    using fst_runPrintErrors [OF assms, of sh tr] by (simp add: prod_eq_iff)
  then show ?thesis
    using that exec_cmds_runPrintErrors [OF assms] rejected_runPrintErrors [OF assms] by blast
qed

lemma exec_cmds_report_found: "exec_cmds (report_found cs tr) = exec_cmds tr"
  by (induction cs arbitrary: tr) (simp_all add: exec_cmds_append exec_cmds_logs)

lemma rejected_report_found: "\<not> rejected tr \<Longrightarrow> \<not> rejected (report_found cs tr)"
proof (induction cs arbitrary: tr)
  case Nil
  then show ?case by simp
next
  case (Cons c cs)
  have "\<not> rejected ((tr @ [Log LInfo ''Found %s'' [Str (name c)]])
          @ map (\<lambda>dependency. Log LInfo ([CHR 0x09, CHR 0x09] @ ''%s'') [Str dependency]) (items c))"
    by (simp add: rejected_last last_map)
  with Cons show ?case by simp
qed

lemma update_loop_cmds:
  "exec_cmds (update_loop e sh cmd cs tr) =
     exec_cmds tr @ takeWhile (\<lambda>line. \<not> exec_throws line)
                      (map (command_line e cmd) (filter (\<lambda>c. items c \<noteq> []) cs))"
proof (induction cs arbitrary: tr)
  case Nil
  then show ?case by simp
next
  case (Cons c cs)
  show ?case
  proof (cases "items c = []")
    case True
    then show ?thesis by (simp add: Cons.IH)
  next
    case False
    show ?thesis
    proof (cases "exec_throws (command_line e cmd c)")
      case True
      with False show ?thesis by (simp add: run_refused exec_cmds_append)
    next
      case accepted: False
      obtain tr1 where "run sh (command_line e cmd c) (tr @ [Log LWarn (command_line e cmd c) []])
            = (Inr (sh (exec_cmds (tr @ [Log LWarn (command_line e cmd c) []])) (command_line e cmd c)), tr1)"
        and "exec_cmds tr1 = exec_cmds (tr @ [Log LWarn (command_line e cmd c) []]) @ [command_line e cmd c]"
        using run_cases [OF accepted] by blast
      with False accepted show ?thesis by (simp add: Cons.IH exec_cmds_append)
    qed
  qed
qed

lemma update_loop_rejected:
  "\<not> rejected tr \<Longrightarrow>
   rejected (update_loop e sh cmd cs tr) =
     (\<not> list_all (\<lambda>line. \<not> exec_throws line)
           (map (command_line e cmd) (filter (\<lambda>c. items c \<noteq> []) cs)))"
proof (induction cs arbitrary: tr)
  case Nil
  then show ?case by simp
next
  case (Cons c cs)
  show ?case
  proof (cases "items c = []")
    case True
    with Cons show ?thesis by simp
  next
    case False
    show ?thesis
    proof (cases "exec_throws (command_line e cmd c)")
      case True
      with False show ?thesis by (simp add: run_refused rejected_last)
    next
      case accepted: False
      obtain tr1 where "run sh (command_line e cmd c) (tr @ [Log LWarn (command_line e cmd c) []])
            = (Inr (sh (exec_cmds (tr @ [Log LWarn (command_line e cmd c) []])) (command_line e cmd c)), tr1)"
        and "\<not> rejected tr1"
        using run_cases [OF accepted] by blast
      with False accepted show ?thesis by (simp add: Cons.IH)
    qed
  qed
qed

lemma audit_loop_done: "\<not> i < 2 \<Longrightarrow> audit_loop e sh i tr = tr"
  by (subst audit_loop.simps) simp

lemma audit_loop_step:
  assumes "i < 2"
  shows "\<exists>tr2 tr4.
      exec_cmds tr2 = exec_cmds tr @ [audit_cmd e] \<and> \<not> rejected tr2 \<and>
      exec_cmds tr4 = exec_cmds tr @ [audit_cmd e, fix_cmd e] \<and> \<not> rejected tr4 \<and>
      audit_loop e sh i tr =
        (if check_for_vulnerabilities (fst (sh (exec_cmds tr) (audit_cmd e)))
         then audit_loop e sh (Suc i) tr4 else tr2)"
proof -
  let ?tr1 = "tr @ [Log LWarn ''Running audit checks... attempt #%s'' [Num (Suc i)]]"
  obtain tr2 where audit: "runPrintErrors sh (audit_cmd e) ?tr1 =
        (Inr (sh (exec_cmds ?tr1) (audit_cmd e)), tr2)"
    and cmds2: "exec_cmds tr2 = exec_cmds ?tr1 @ [audit_cmd e]" and live2: "\<not> rejected tr2"
    using runPrintErrors_cases [OF audit_cmd_accepted] by blast
  let ?tr3 = "tr2 @ [Log LWarn ''Attempting audit fixes...'' []]"
  obtain tr4 where fixing: "runPrintErrors sh (fix_cmd e) ?tr3 =
        (Inr (sh (exec_cmds ?tr3) (fix_cmd e)), tr4)"
    and cmds4: "exec_cmds tr4 = exec_cmds ?tr3 @ [fix_cmd e]" and live4: "\<not> rejected tr4"
    using runPrintErrors_cases [OF fix_cmd_accepted] by blast
  have history: "exec_cmds ?tr1 = exec_cmds tr"
    by (simp add: exec_cmds_append)
  have body: "audit_loop e sh i tr =
      (case runPrintErrors sh (audit_cmd e) ?tr1 of
         (Inl err, tr2) \<Rightarrow> tr2
       | (Inr res, tr2) \<Rightarrow>
           if check_for_vulnerabilities (fst res)
           then (case runPrintErrors sh (fix_cmd e)
                        (tr2 @ [Log LWarn ''Attempting audit fixes...'' []]) of
                   (Inl err, tr4) \<Rightarrow> tr4
                 | (Inr fixed, tr4) \<Rightarrow> audit_loop e sh (Suc i) tr4)
           else tr2)"
    using assms
    by (subst audit_loop.simps, cases "is_npm e")
       (simp_all add: audit_cmd_def fix_cmd_def Let_def split: prod.splits sum.splits)
  have "audit_loop e sh i tr =
      (if check_for_vulnerabilities (fst (sh (exec_cmds tr) (audit_cmd e)))
       then audit_loop e sh (Suc i) tr4 else tr2)"
    by (simp add: body audit fixing history)
  moreover have "exec_cmds tr2 = exec_cmds tr @ [audit_cmd e]"
    using cmds2 by (simp add: history)
  moreover have "exec_cmds tr4 = exec_cmds tr @ [audit_cmd e, fix_cmd e]"
    using cmds4 cmds2 by (simp add: history exec_cmds_append)
  ultimately show ?thesis using live2 live4 by blast
qed

lemma audit_loop_stop:
  assumes "i < 2" and "\<not> check_for_vulnerabilities (fst (sh (exec_cmds tr) (audit_cmd e)))"
  shows "exec_cmds (audit_loop e sh i tr) = exec_cmds tr @ [audit_cmd e]"
  using assms audit_loop_step [of i tr e sh] by auto

lemma audit_loop_fix:
  assumes "i < 2" and "check_for_vulnerabilities (fst (sh (exec_cmds tr) (audit_cmd e)))"
  shows "\<exists>tr'. audit_loop e sh i tr = audit_loop e sh (Suc i) tr' \<and>
           exec_cmds tr' = exec_cmds tr @ [audit_cmd e, fix_cmd e] \<and> \<not> rejected tr'"
  using assms audit_loop_step [of i tr e sh] by auto

lemma audit_loop_second:
  "exec_cmds (audit_loop e sh (Suc 0) tr) =
     exec_cmds tr @ (if check_for_vulnerabilities (fst (sh (exec_cmds tr) (audit_cmd e)))
                     then [audit_cmd e, fix_cmd e] else [audit_cmd e])"
proof (cases "check_for_vulnerabilities (fst (sh (exec_cmds tr) (audit_cmd e)))")
  case True
  then obtain tr' where "audit_loop e sh (Suc 0) tr = audit_loop e sh (Suc (Suc 0)) tr'"
    and "exec_cmds tr' = exec_cmds tr @ [audit_cmd e, fix_cmd e]"
    using audit_loop_fix [of "Suc 0" sh tr e] by auto
  with True show ?thesis by (simp add: audit_loop_done)
next
  case False
  then show ?thesis by (simp add: audit_loop_stop)
qed

lemma audit_loop_cmds:
  "exec_cmds (audit_loop e sh 0 tr) = exec_cmds tr @ audit_tail e sh (exec_cmds tr)"
proof (cases "check_for_vulnerabilities (fst (sh (exec_cmds tr) (audit_cmd e)))")
  case True
  then obtain tr' where "audit_loop e sh 0 tr = audit_loop e sh (Suc 0) tr'"
    and "exec_cmds tr' = exec_cmds tr @ [audit_cmd e, fix_cmd e]"
    using audit_loop_fix [of 0 sh tr e] by auto
  with True show ?thesis by (simp add: audit_loop_second audit_tail_def)
next
  case False
  then show ?thesis by (simp add: audit_loop_stop audit_tail_def)
qed

lemma audit_loop_rejected_second:
  assumes "\<not> rejected tr"
  shows "\<not> rejected (audit_loop e sh (Suc 0) tr)"
proof -
  obtain tr2 tr4 where "\<not> rejected tr2" and "\<not> rejected tr4"
    and "audit_loop e sh (Suc 0) tr =
        (if check_for_vulnerabilities (fst (sh (exec_cmds tr) (audit_cmd e)))
         then audit_loop e sh (Suc (Suc 0)) tr4 else tr2)"
    using audit_loop_step [of "Suc 0" tr e sh] by auto
  then show ?thesis by (simp add: audit_loop_done)
qed

lemma audit_loop_rejected:
  assumes "\<not> rejected tr"
  shows "\<not> rejected (audit_loop e sh 0 tr)"
proof -
  obtain tr2 tr4 where "\<not> rejected tr2" and "\<not> rejected tr4"
    and "audit_loop e sh 0 tr =
        (if check_for_vulnerabilities (fst (sh (exec_cmds tr) (audit_cmd e)))
         then audit_loop e sh (Suc 0) tr4 else tr2)"
    using audit_loop_step [of 0 tr e sh] by auto
  then show ?thesis by (simp add: audit_loop_rejected_second)
qed

lemma select_cmd_update:
  assumes "\<not> setup_mode e" and "is_npm e \<noteq> is_yarn e"
  shows "select_cmd e tr =
           (Inr (if is_npm e then ''npm install'' else if latest e then ''yarn add'' else ''yarn upgrade''),
            tr @ [Log LWarn (if is_npm e then ''NPM detected...'' else ''Yarn detected...'') []])"
  using assms by (auto simp: select_cmd_def)

lemma length_update_lines: "length (update_lines e) = update_count e"
  by (simp add: update_lines_def update_count_def)

lemma main_update:
  assumes "\<not> setup_mode e" and "is_npm e \<noteq> is_yarn e"
  shows "exec_cmds (snd (main e sh)) =
           takeWhile (\<lambda>line. \<not> exec_throws line) (update_lines e)
           @ (if list_all (\<lambda>line. \<not> exec_throws line) (update_lines e)
              then audit_tail e sh (update_lines e) else [])"
    and "fst (main e sh) =
           (if list_all (\<lambda>line. \<not> exec_throws line) (update_lines e) then Returned else Rejected)"
proof -
  let ?cmd = "if is_npm e then ''npm install'' else if latest e then ''yarn add'' else ''yarn upgrade''"
  let ?tr0 = "[Log LWarn (if is_npm e then ''NPM detected...'' else ''Yarn detected...'') []]"
  let ?tr2 = "report_found (dependencies (config e)) ?tr0
              @ [if latest e
                 then Log LWarn ''Set to update all dependencies to the latest version...'' []
                 else Log LWarn ''Set to update all dependencies to latest version within the rules in package.json...'' []]"
  let ?tr3 = "update_loop e sh ?cmd (dependencies (config e)) ?tr2"
  have start: "exec_cmds ?tr2 = []"
    by (simp add: exec_cmds_append exec_cmds_report_found)
  have live: "\<not> rejected ?tr2"
    by (simp add: rejected_last)
  have cmds3: "exec_cmds ?tr3 = takeWhile (\<lambda>line. \<not> exec_throws line) (update_lines e)"
    unfolding update_loop_cmds start update_lines_def by simp
  have rej3: "rejected ?tr3 = (\<not> list_all (\<lambda>line. \<not> exec_throws line) (update_lines e))"
    unfolding update_lines_def by (rule update_loop_rejected [OF live])
  have unfold: "main e sh =
      (if rejected ?tr3 then (Rejected, ?tr3)
       else if rejected (audit_loop e sh 0 ?tr3) then (Rejected, audit_loop e sh 0 ?tr3)
       else (Returned, audit_loop e sh 0 ?tr3))"
    using assms by (simp add: main_def select_cmd_update Let_def)
  show "exec_cmds (snd (main e sh)) =
           takeWhile (\<lambda>line. \<not> exec_throws line) (update_lines e)
           @ (if list_all (\<lambda>line. \<not> exec_throws line) (update_lines e)
              then audit_tail e sh (update_lines e) else [])"
  proof (cases "list_all (\<lambda>line. \<not> exec_throws line) (update_lines e)")
    case True
    then have all: "takeWhile (\<lambda>line. \<not> exec_throws line) (update_lines e) = update_lines e"
      by (simp add: list_all_iff)
    from True have "snd (main e sh) = audit_loop e sh 0 ?tr3"
      unfolding unfold by (simp add: rej3)
    then show ?thesis
      using True by (simp add: audit_loop_cmds cmds3 all)
  next
    case False
    then have "snd (main e sh) = ?tr3"
      unfolding unfold by (simp add: rej3)
    then show ?thesis using False by (simp add: cmds3)
  qed
  show "fst (main e sh) =
           (if list_all (\<lambda>line. \<not> exec_throws line) (update_lines e) then Returned else Rejected)"
  proof (cases "list_all (\<lambda>line. \<not> exec_throws line) (update_lines e)")
    case True
    then have "\<not> rejected ?tr3" by (simp add: rej3)
    then have "\<not> rejected (audit_loop e sh 0 ?tr3)" by (rule audit_loop_rejected)
    with True show ?thesis unfolding unfold by (simp add: rej3)
  next
    case False
    then show ?thesis unfolding unfold by (simp add: rej3)
  qed
qed

lemma audit_tail_shapes:
  "audit_tail e sh h = [audit_cmd e] \<or> audit_tail e sh h = [audit_cmd e, fix_cmd e, audit_cmd e]
   \<or> audit_tail e sh h = [audit_cmd e, fix_cmd e, audit_cmd e, fix_cmd e]"
  by (simp add: audit_tail_def)


lemma main_update_split:
  assumes "\<not> setup_mode e" and "is_npm e \<noteq> is_yarn e"
  shows "take (update_count e) (exec_cmds (snd (main e sh))) =
           takeWhile (\<lambda>line. \<not> exec_throws line) (update_lines e)"
    and "drop (update_count e) (exec_cmds (snd (main e sh))) =
           (if list_all (\<lambda>line. \<not> exec_throws line) (update_lines e)
            then audit_tail e sh (update_lines e) else [])"
proof -
  have short: "length (takeWhile (\<lambda>line. \<not> exec_throws line) (update_lines e)) \<le> update_count e"
    using length_takeWhile_le [of "\<lambda>line. \<not> exec_throws line" "update_lines e"]
    by (simp add: length_update_lines)
  have full: "length (takeWhile (\<lambda>line. \<not> exec_throws line) (update_lines e)) = update_count e"
    if "list_all (\<lambda>line. \<not> exec_throws line) (update_lines e)"
  proof -
    from that have whole: "takeWhile (\<lambda>line. \<not> exec_throws line) (update_lines e) = update_lines e"
      by (simp add: list_all_iff)
    show ?thesis unfolding whole by (rule length_update_lines)
  qed
  show "take (update_count e) (exec_cmds (snd (main e sh))) =
           takeWhile (\<lambda>line. \<not> exec_throws line) (update_lines e)"
    using short full by (simp add: main_update(1) [OF assms])
  show "drop (update_count e) (exec_cmds (snd (main e sh))) =
           (if list_all (\<lambda>line. \<not> exec_throws line) (update_lines e)
            then audit_tail e sh (update_lines e) else [])"
    using short full by (simp add: main_update(1) [OF assms])
qed

lemma audit_loop_prefix:
  "\<exists>rest. exec_cmds (audit_loop e sh i tr) = exec_cmds tr @ rest"
proof -
  consider "i = 0" | "i = Suc 0" | "\<not> i < 2" by linarith
  then show ?thesis
  proof cases
    case 1
    then show ?thesis by (simp add: audit_loop_cmds)
  next
    case 2
    then show ?thesis by (simp add: audit_loop_second)
  next
    case 3
    then show ?thesis by (simp add: audit_loop_done)
  qed
qed

lemma audit_loop_fix_next:
  assumes "i < 2" and "check_for_vulnerabilities (fst (sh (exec_cmds tr) (audit_cmd e)))"
  shows "take (length (exec_cmds tr) + 2) (exec_cmds (audit_loop e sh i tr)) =
           exec_cmds tr @ [audit_cmd e, fix_cmd e]"
proof -
  obtain tr' where step: "audit_loop e sh i tr = audit_loop e sh (Suc i) tr'"
    and cmds: "exec_cmds tr' = exec_cmds tr @ [audit_cmd e, fix_cmd e]"
    using audit_loop_fix [of i sh tr e] assms by blast
  obtain rest where "exec_cmds (audit_loop e sh (Suc i) tr') = exec_cmds tr' @ rest"
    using audit_loop_prefix by blast
  with step cmds show ?thesis by simp
qed

lemma example_cmds:
  "audit_cmd npm_project = ''npm audit''" "fix_cmd npm_project = ''npm audit fix''"
  "audit_cmd bare_npm_project = ''npm audit''" "fix_cmd bare_npm_project = ''npm audit fix''"
  "audit_cmd yarn_project = ''yarn audit''"
  "fix_cmd yarn_project = ''/opt/depupdate/node_modules/.bin/yarn-audit-fix''"
  by (simp_all add: audit_cmd_def fix_cmd_def npm_project_def bare_npm_project_def
        yarn_project_def installed_fix.rep_eq)

lemma npm_project_mode:
  "\<not> setup_mode npm_project" "is_npm npm_project \<noteq> is_yarn npm_project"
  by (simp_all add: npm_project_def)

lemma yarn_project_mode:
  "\<not> setup_mode yarn_project" "is_npm yarn_project \<noteq> is_yarn yarn_project"
  by (simp_all add: yarn_project_def)

lemma npm_project_count: "update_count npm_project = 2"
  by (simp add: update_count_def npm_project_def dependencies_def keys_or_empty_def)

lemma yarn_project_count: "update_count yarn_project = 2"
  by (simp add: update_count_def yarn_project_def dependencies_def keys_or_empty_def)

section \<open>The parsed vulnerability count\<close>

lemma match_digit_runs_hd: "\<exists>ms. match_digit_runs s = takeWhile is_digit s # ms"
  by (cases s) simp_all

lemma str_match_some: "\<exists>ms. str_match s = Some (takeWhile is_digit s # ms)"
  using match_digit_runs_hd [of s] by (auto simp: str_match_def)

lemma foldl_dec_value:
  "foldl (\<lambda>acc c. acc * 10 + digit_val c) a ds = a * 10 ^ length ds + dec_value ds"
  by (induction ds arbitrary: a) (simp_all add: algebra_simps)

lemma parseInt_digits:
  assumes "ds \<noteq> []" and "list_all is_digit ds"
  shows "parseInt ds = (if dec_value ds \<le> 2 ^ 53 then Exact (dec_value ds) else Beyond)"
proof -
  from assms(2) have run: "takeWhile is_digit ds = ds"
    by (simp add: list_all_iff)
  show ?thesis
    unfolding parseInt_def Let_def run using assms(1) by (simp add: foldl_dec_value)
qed

lemma parseInt_zero: "parseInt ''0'' = Exact 0"
  by (simp add: parseInt_def is_digit_def digit_val_def)

lemma parsed_count:
  assumes m: "str_match s = Some matcher"
  shows "parseInt (first_match_or_zero matcher) =
           (if leading_count s \<le> 2 ^ 53 then Exact (leading_count s) else Beyond)"
proof -
  obtain ms where "str_match s = Some (takeWhile is_digit s # ms)"
    using str_match_some by blast
  with m have matcher: "matcher = takeWhile is_digit s # ms" by simp
  show ?thesis
  proof (cases "takeWhile is_digit s = []")
    case True
    then show ?thesis
      by (simp add: matcher first_match_or_zero_def parseInt_zero leading_count_def)
  next
    case False
    moreover have "list_all is_digit (takeWhile is_digit s)"
      by (simp add: list_all_iff) (meson set_takeWhileD)
    ultimately show ?thesis
      by (simp add: matcher first_match_or_zero_def parseInt_digits leading_count_def)
  qed
qed

lemma check_leading_count: "check_for_vulnerabilities s = (leading_count s \<noteq> 0)"
proof -
  obtain ms where m: "str_match s = Some (takeWhile is_digit s # ms)"
    using str_match_some by blast
  with parsed_count [OF m] show ?thesis
    by (auto simp: check_for_vulnerabilities_def)
qed

lemma count_zero_text: "leading_count ''0 vulnerabilities found'' = 0"
  by (simp add: leading_count_def is_digit_def digit_val_def)

lemma count_five_text: "leading_count ''5 vulnerabilities found'' = 5"
  by (simp add: leading_count_def is_digit_def digit_val_def)

lemma count_three_text: "leading_count ''3 vulnerabilities found'' = 3"
  by (simp add: leading_count_def is_digit_def digit_val_def)

text \<open>
  Claim C3. The vulnerability count is the leading run of digits of the audit's stdout read
  as a number, with no digits counting as zero. The pattern always has a first match, and
  the string handed to \<open>parseInt\<close> parses to that count, exactly as long as the count is
  at most \<open>2 ^ 53\<close> and to a larger number otherwise; \<open>check_for_vulnerabilities\<close>
  answers whether the count is nonzero. For the stdout \<open>0 vulnerabilities found\<close> the
  count is 0 and the audit loop runs the audit and nothing else; for
  \<open>5 vulnerabilities found\<close> the count is 5 and the command right after the audit is the
  fix command.
\<close>

theorem vulnerability_count_is_leading_digits:
  "(\<exists>matcher. str_match s = Some matcher \<and>
       parseInt (first_match_or_zero matcher) =
         (if leading_count s \<le> 2 ^ 53 then Exact (leading_count s) else Beyond))
   \<and> check_for_vulnerabilities s = (leading_count s \<noteq> 0)
   \<and> leading_count ''0 vulnerabilities found'' = 0
   \<and> leading_count ''5 vulnerabilities found'' = 5
   \<and> (fst (sh0 (exec_cmds tr) (audit_cmd e)) = ''0 vulnerabilities found'' \<longrightarrow>
        exec_cmds (audit_loop e sh0 0 tr) = exec_cmds tr @ [audit_cmd e])
   \<and> (fst (sh5 (exec_cmds tr) (audit_cmd e)) = ''5 vulnerabilities found'' \<longrightarrow>
        take (length (exec_cmds tr) + 2) (exec_cmds (audit_loop e sh5 0 tr)) =
          exec_cmds tr @ [audit_cmd e, fix_cmd e])"
proof -
  obtain ms where m: "str_match s = Some (takeWhile is_digit s # ms)"
    using str_match_some by blast
  have "\<exists>matcher. str_match s = Some matcher \<and>
          parseInt (first_match_or_zero matcher) =
            (if leading_count s \<le> 2 ^ 53 then Exact (leading_count s) else Beyond)"
    using m parsed_count [OF m] by blast
  moreover have "fst (sh0 (exec_cmds tr) (audit_cmd e)) = ''0 vulnerabilities found'' \<longrightarrow>
        exec_cmds (audit_loop e sh0 0 tr) = exec_cmds tr @ [audit_cmd e]"
    using audit_loop_stop [of 0 sh0 tr e] by (simp add: check_leading_count count_zero_text)
  moreover have "fst (sh5 (exec_cmds tr) (audit_cmd e)) = ''5 vulnerabilities found'' \<longrightarrow>
        take (length (exec_cmds tr) + 2) (exec_cmds (audit_loop e sh5 0 tr)) =
          exec_cmds tr @ [audit_cmd e, fix_cmd e]"
    using audit_loop_fix_next [of 0 sh5 tr e] by (simp add: check_leading_count count_five_text)
  ultimately show ?thesis
    by (simp add: check_leading_count count_zero_text count_five_text)
qed

theorem vulnerability_count_is_leading_digits_witness:
  "check_for_vulnerabilities ''12 high'' = (leading_count ''12 high'' \<noteq> 0)
   \<and> leading_count ''12 high'' = 12
   \<and> (\<exists>matcher. str_match ''12 high'' = Some matcher \<and>
         parseInt (first_match_or_zero matcher) = Exact 12)
   \<and> exec_cmds (audit_loop npm_project (printing_shell ''0 vulnerabilities found'') 0 []) = [''npm audit'']
   \<and> take 2 (exec_cmds (audit_loop npm_project (printing_shell ''5 vulnerabilities found'') 0 []))
       = [''npm audit'', ''npm audit fix'']"
proof -
  have twelve: "leading_count ''12 high'' = 12"
    by (simp add: leading_count_def is_digit_def digit_val_def)
  note inst = vulnerability_count_is_leading_digits
      [of "''12 high''" "printing_shell ''0 vulnerabilities found''" "[]" npm_project
          "printing_shell ''5 vulnerabilities found''"]
  from inst have parsed: "\<exists>matcher. str_match ''12 high'' = Some matcher \<and>
         parseInt (first_match_or_zero matcher) = Exact 12"
    by (simp add: twelve)
  from inst have stop: "exec_cmds (audit_loop npm_project
        (printing_shell ''0 vulnerabilities found'') 0 []) = [''npm audit'']"
    by (simp add: printing_shell_def example_cmds)
  from inst have "take (Suc (Suc 0)) (exec_cmds (audit_loop npm_project
        (printing_shell ''5 vulnerabilities found'') 0 [])) = [''npm audit'', ''npm audit fix'']"
    by (simp add: printing_shell_def example_cmds)
  then have fixed: "take 2 (exec_cmds (audit_loop npm_project
        (printing_shell ''5 vulnerabilities found'') 0 [])) = [''npm audit'', ''npm audit fix'']"
    by (simp add: numeral_2_eq_2)
  from inst parsed stop fixed show ?thesis by (simp add: twelve)
qed

text \<open>
  Claim C10. When the first character of the audit's stdout is not a digit, the first match
  of the pattern is the empty string at position 0, the check reports no vulnerabilities
  and the audit loop stops after that audit without running the fix command, whatever
  digits come later in the text.
\<close>

theorem leading_non_digit_reports_nothing:
  assumes "\<not> is_digit c"
  shows "(\<exists>ms. match_digit_runs (c # cs) = [] # ms)
         \<and> \<not> check_for_vulnerabilities (c # cs)
         \<and> (fst (sh (exec_cmds tr) (audit_cmd e)) = c # cs \<longrightarrow>
              exec_cmds (audit_loop e sh 0 tr) = exec_cmds tr @ [audit_cmd e])"
proof -
  from assms have quiet: "\<not> check_for_vulnerabilities (c # cs)"
    by (simp add: check_leading_count leading_count_def)
  then have "fst (sh (exec_cmds tr) (audit_cmd e)) = c # cs \<longrightarrow>
      exec_cmds (audit_loop e sh 0 tr) = exec_cmds tr @ [audit_cmd e]"
    using audit_loop_stop [of 0 sh tr e] by simp
  with assms quiet show ?thesis by simp
qed

theorem leading_non_digit_reports_nothing_witness:
  "\<not> is_digit CHR ''f''
   \<and> ''5'' \<in> set (match_digit_runs ''found 5 vulnerabilities'')
   \<and> \<not> check_for_vulnerabilities ''found 5 vulnerabilities''
   \<and> exec_cmds (audit_loop yarn_project (printing_shell ''found 5 vulnerabilities'') 0 [])
       = [''yarn audit'']"
  using leading_non_digit_reports_nothing
    [of "CHR ''f''" "''ound 5 vulnerabilities''" "printing_shell ''found 5 vulnerabilities''" "[]"
        yarn_project]
  by (simp add: printing_shell_def example_cmds is_digit_def)

section \<open>The audit loop\<close>

lemma check_three: "check_for_vulnerabilities ''3 vulnerabilities found''"
  by (simp add: check_leading_count leading_count_def is_digit_def digit_val_def)

lemma audit_tail_count:
  "fix_cmd e \<noteq> audit_cmd e \<Longrightarrow> count_list (audit_tail e sh h) (audit_cmd e) \<le> 2"
  by (simp add: audit_tail_def)

text \<open>
  Claim C1. Wherever the audit loop starts, its commands are one audit, or audit, fix,
  audit, or audit, fix, audit, fix: never more than two audits, whatever the shell
  answers, and an audit whose parsed count is zero is the last command of the loop.
  Counted by name, the audit command occurs at most twice among them, the fix command
  being another command than the audit command (under yarn it is the path of
  \<open>yarn-audit-fix\<close>). In update mode the commands of a run after its update commands are
  those of the audit loop, or none at all when \<open>exec\<close> has refused an update command and
  the run was rejected before the loop; in both cases at most two of them are audits.
\<close>

theorem audit_attempts_bounded:
  "(let h = exec_cmds tr;
        cmds = exec_cmds (audit_loop e sh 0 tr);
        auds = drop (length h) cmds
    in take (length h) cmds = h
       \<and> (auds = [audit_cmd e] \<or> auds = [audit_cmd e, fix_cmd e, audit_cmd e]
            \<or> auds = [audit_cmd e, fix_cmd e, audit_cmd e, fix_cmd e])
       \<and> (\<not> check_for_vulnerabilities (fst (sh h (audit_cmd e))) \<longrightarrow> auds = [audit_cmd e])
       \<and> (check_for_vulnerabilities (fst (sh h (audit_cmd e))) \<and>
          \<not> check_for_vulnerabilities (fst (sh (h @ [audit_cmd e, fix_cmd e]) (audit_cmd e))) \<longrightarrow>
            auds = [audit_cmd e, fix_cmd e, audit_cmd e])
       \<and> (check_for_vulnerabilities (fst (sh h (audit_cmd e))) \<and>
          check_for_vulnerabilities (fst (sh (h @ [audit_cmd e, fix_cmd e]) (audit_cmd e))) \<longrightarrow>
            auds = [audit_cmd e, fix_cmd e, audit_cmd e, fix_cmd e])
       \<and> (fix_cmd e \<noteq> audit_cmd e \<longrightarrow> count_list auds (audit_cmd e) \<le> 2))
   \<and> (\<not> setup_mode e \<and> is_npm e \<noteq> is_yarn e \<longrightarrow>
        (let auds = drop (update_count e) (exec_cmds (snd (main e sh)))
         in (auds = [] \<or> auds = [audit_cmd e] \<or> auds = [audit_cmd e, fix_cmd e, audit_cmd e]
              \<or> auds = [audit_cmd e, fix_cmd e, audit_cmd e, fix_cmd e])
            \<and> (fix_cmd e \<noteq> audit_cmd e \<longrightarrow> count_list auds (audit_cmd e) \<le> 2)))"
proof -
  have loop: "exec_cmds (audit_loop e sh 0 tr) = exec_cmds tr @ audit_tail e sh (exec_cmds tr)"
    by (rule audit_loop_cmds)
  have first: "(let h = exec_cmds tr;
        cmds = exec_cmds (audit_loop e sh 0 tr);
        auds = drop (length h) cmds
    in take (length h) cmds = h
       \<and> (auds = [audit_cmd e] \<or> auds = [audit_cmd e, fix_cmd e, audit_cmd e]
            \<or> auds = [audit_cmd e, fix_cmd e, audit_cmd e, fix_cmd e])
       \<and> (\<not> check_for_vulnerabilities (fst (sh h (audit_cmd e))) \<longrightarrow> auds = [audit_cmd e])
       \<and> (check_for_vulnerabilities (fst (sh h (audit_cmd e))) \<and>
          \<not> check_for_vulnerabilities (fst (sh (h @ [audit_cmd e, fix_cmd e]) (audit_cmd e))) \<longrightarrow>
            auds = [audit_cmd e, fix_cmd e, audit_cmd e])
       \<and> (check_for_vulnerabilities (fst (sh h (audit_cmd e))) \<and>
          check_for_vulnerabilities (fst (sh (h @ [audit_cmd e, fix_cmd e]) (audit_cmd e))) \<longrightarrow>
            auds = [audit_cmd e, fix_cmd e, audit_cmd e, fix_cmd e])
       \<and> (fix_cmd e \<noteq> audit_cmd e \<longrightarrow> count_list auds (audit_cmd e) \<le> 2))"
    unfolding Let_def loop by (auto simp: audit_tail_def)
  have second: "(let auds = drop (update_count e) (exec_cmds (snd (main e sh)))
         in (auds = [] \<or> auds = [audit_cmd e] \<or> auds = [audit_cmd e, fix_cmd e, audit_cmd e]
              \<or> auds = [audit_cmd e, fix_cmd e, audit_cmd e, fix_cmd e])
            \<and> (fix_cmd e \<noteq> audit_cmd e \<longrightarrow> count_list auds (audit_cmd e) \<le> 2))"
    if mode: "\<not> setup_mode e" "is_npm e \<noteq> is_yarn e"
    unfolding Let_def main_update_split(2) [OF mode]
    using audit_tail_shapes [of e sh "update_lines e"] audit_tail_count [of e sh "update_lines e"]
    by auto
  from first second show ?thesis by blast
qed

theorem audit_attempts_bounded_witness:
  "\<not> setup_mode npm_project \<and> is_npm npm_project \<noteq> is_yarn npm_project
   \<and> update_count npm_project = 2
   \<and> fix_cmd npm_project \<noteq> audit_cmd npm_project
   \<and> count_list (drop 2 (exec_cmds (snd (main npm_project
                         (printing_shell ''3 vulnerabilities found''))))) ''npm audit'' \<le> 2
   \<and> exec_cmds (audit_loop npm_project (printing_shell ''3 vulnerabilities found'') 0 [])
       = [''npm audit'', ''npm audit fix'', ''npm audit'', ''npm audit fix'']
   \<and> exec_cmds (audit_loop npm_project (printing_shell ''up to date'') 0 [])
       = [''npm audit'']"
proof -
  have quiet: "\<not> check_for_vulnerabilities ''up to date''"
    by (simp add: check_leading_count leading_count_def is_digit_def)
  have "exec_cmds (audit_loop npm_project (printing_shell ''up to date'') 0 []) = [''npm audit'']"
    using audit_attempts_bounded [of "[]" npm_project "printing_shell ''up to date''"] quiet
    by (simp add: Let_def example_cmds printing_shell_def)
  moreover have "exec_cmds (audit_loop npm_project (printing_shell ''3 vulnerabilities found'') 0 [])
       = [''npm audit'', ''npm audit fix'', ''npm audit'', ''npm audit fix'']"
    using audit_attempts_bounded [of "[]" npm_project "printing_shell ''3 vulnerabilities found''"]
      check_three
    by (simp add: Let_def example_cmds printing_shell_def)
  moreover have "count_list (drop 2 (exec_cmds (snd (main npm_project
                         (printing_shell ''3 vulnerabilities found''))))) ''npm audit'' \<le> 2"
    using audit_attempts_bounded [of "[]" npm_project "printing_shell ''3 vulnerabilities found''"]
      npm_project_mode
    by (simp add: Let_def npm_project_count example_cmds)
  ultimately show ?thesis using npm_project_count npm_project_mode by (simp add: example_cmds)
qed

text \<open>
  Claim C2, as stated, fails: with a nonzero count at both attempts the fix command runs
  again after the second audit, and is the last command of the run.
\<close>

theorem fix_runs_after_second_audit:
  "exec_cmds (snd (main bare_npm_project (printing_shell ''3 vulnerabilities found'')))
     = [''npm audit'', ''npm audit fix'', ''npm audit'', ''npm audit fix'']"
proof -
  have mode: "\<not> setup_mode bare_npm_project" "is_npm bare_npm_project \<noteq> is_yarn bare_npm_project"
    by (simp_all add: bare_npm_project_def)
  have "update_lines bare_npm_project = []"
    by (simp add: update_lines_def bare_npm_project_def dependencies_def keys_or_empty_def)
  then show ?thesis
    using check_three
    by (simp add: main_update(1) [OF mode] audit_tail_def printing_shell_def example_cmds)
qed

text \<open>
  Claim C2, amended. At the first and at the second attempt alike, the fix command runs
  right after an audit whose parsed count is nonzero, and the loop stops right after an
  audit whose parsed count is zero; at the second attempt a nonzero count runs the fix
  command and the loop is done after it.
\<close>

theorem fix_follows_every_nonzero_audit:
  assumes "i < 2"
  shows "(check_for_vulnerabilities (fst (sh (exec_cmds tr) (audit_cmd e))) \<longrightarrow>
            take (length (exec_cmds tr) + 2) (exec_cmds (audit_loop e sh i tr)) =
              exec_cmds tr @ [audit_cmd e, fix_cmd e])
         \<and> (\<not> check_for_vulnerabilities (fst (sh (exec_cmds tr) (audit_cmd e))) \<longrightarrow>
            exec_cmds (audit_loop e sh i tr) = exec_cmds tr @ [audit_cmd e])
         \<and> (i = 1 \<and> check_for_vulnerabilities (fst (sh (exec_cmds tr) (audit_cmd e))) \<longrightarrow>
            exec_cmds (audit_loop e sh i tr) = exec_cmds tr @ [audit_cmd e, fix_cmd e])"
  using assms audit_loop_fix_next [of i sh tr e] audit_loop_stop [of i sh tr e]
    audit_loop_second [of e sh tr]
  by auto

theorem fix_follows_every_nonzero_audit_witness:
  "(1::nat) < 2
   \<and> check_for_vulnerabilities ''3 vulnerabilities found''
   \<and> exec_cmds (audit_loop yarn_project (printing_shell ''3 vulnerabilities found'') 1 [])
       = [''yarn audit'', ''/opt/depupdate/node_modules/.bin/yarn-audit-fix'']"
  using fix_follows_every_nonzero_audit
    [of 1 "printing_shell ''3 vulnerabilities found''" "[]" yarn_project] check_three
  by (simp add: printing_shell_def example_cmds)

section \<open>Lockfile errors\<close>

text \<open>
  Claim C7. When both lockfiles are detected, and when neither is detected and setup mode
  is not requested, the run ends with \<open>process.exit(1)\<close> and has executed no command.
\<close>

theorem lockfile_errors_exit_before_any_command:
  assumes "(is_npm e \<and> is_yarn e) \<or> (\<not> is_npm e \<and> \<not> is_yarn e \<and> \<not> setup_mode e)"
  shows "fst (main e sh) = ProcessExit 1 \<and> exec_cmds (snd (main e sh)) = []"
  using assms by (auto simp: main_def select_cmd_def)

theorem lockfile_errors_exit_before_any_command_witness:
  "(is_npm both_locks \<and> is_yarn both_locks)
   \<and> (\<not> is_npm no_lock \<and> \<not> is_yarn no_lock \<and> \<not> setup_mode no_lock)
   \<and> main both_locks (printing_shell ''ok'') =
        (ProcessExit 1,
         [Log LError ''Cannot run while both yarn.lock and package-lock.json both exist...'' []])
   \<and> fst (main no_lock (printing_shell ''ok'')) = ProcessExit 1
   \<and> exec_cmds (snd (main no_lock (printing_shell ''ok''))) = []"
proof -
  have both: "is_npm both_locks \<and> is_yarn both_locks"
    by (simp add: both_locks_def npm_project_def)
  have none: "\<not> is_npm no_lock \<and> \<not> is_yarn no_lock \<and> \<not> setup_mode no_lock"
    by (simp add: no_lock_def npm_project_def)
  have "main both_locks (printing_shell ''ok'') =
        (ProcessExit 1,
         [Log LError ''Cannot run while both yarn.lock and package-lock.json both exist...'' []])"
    using both by (simp add: main_def select_cmd_def)
  with both none
    lockfile_errors_exit_before_any_command [of both_locks "printing_shell ''ok''"]
    lockfile_errors_exit_before_any_command [of no_lock "printing_shell ''ok''"]
  show ?thesis by simp
qed

section \<open>What the process runner returns and logs\<close>








section \<open>Formatting the package names\<close>

lemma split_str_no_sep: "sep \<notin> set x \<Longrightarrow> split_str sep x = [x]"
  by (induction x) auto

lemma split_str_piece: "sep \<notin> set x \<Longrightarrow> split_str sep (x @ sep # r) = x # split_str sep r"
  by (induction x) auto

lemma split_join:
  "xs \<noteq> [] \<Longrightarrow> \<forall>x\<in>set xs. sep \<notin> set x \<Longrightarrow> split_str sep (join_str [sep] xs) = xs"
proof (induction xs)
  case Nil
  then show ?case by simp
next
  case (Cons x xs)
  show ?case
  proof (cases xs)
    case Nil
    with Cons.prems show ?thesis by (simp add: split_str_no_sep)
  next
    case (Cons y ys)
    with Cons.prems Cons.IH show ?thesis by (simp add: split_str_piece)
  qed
qed

text \<open>
  Claim C9. With \<open>latest\<close> set, \<open>format_dep\<close> joins the package names, each followed by
  \<open>@latest\<close>, with single spaces; without it, it joins the names as they are. For a
  non-empty list of names without spaces, splitting the result at the spaces gives back
  every name with the marker, respectively every name unchanged.
\<close>

theorem format_dep_latest_marker:
  "format_dep deps True = join_str '' '' (map (\<lambda>dep. dep @ ''@latest'') deps)
   \<and> format_dep deps False = join_str '' '' deps
   \<and> (deps \<noteq> [] \<and> (\<forall>dep\<in>set deps. CHR '' '' \<notin> set dep) \<longrightarrow>
        split_str CHR '' '' (format_dep deps True) = map (\<lambda>dep. dep @ ''@latest'') deps
        \<and> split_str CHR '' '' (format_dep deps False) = deps)"
proof -
  have "split_str CHR '' '' (format_dep deps True) = map (\<lambda>dep. dep @ ''@latest'') deps"
    if "deps \<noteq> []" and "\<forall>dep\<in>set deps. CHR '' '' \<notin> set dep"
    using that split_join [of "map (\<lambda>dep. dep @ ''@latest'') deps" "CHR '' ''"]
    by (simp add: format_dep_def)
  moreover have "split_str CHR '' '' (format_dep deps False) = deps"
    if "deps \<noteq> []" and "\<forall>dep\<in>set deps. CHR '' '' \<notin> set dep"
    using that split_join [of deps "CHR '' ''"] by (simp add: format_dep_def)
  ultimately show ?thesis by (auto simp: format_dep_def)
qed

theorem format_dep_latest_marker_witness:
  "[''mocha'', ''chai''] \<noteq> [] \<and> CHR '' '' \<notin> set ''mocha'' \<and> CHR '' '' \<notin> set ''chai''
   \<and> format_dep [''mocha'', ''chai''] True = ''mocha@latest chai@latest''
   \<and> format_dep [''mocha'', ''chai''] False = ''mocha chai''
   \<and> split_str CHR '' '' ''mocha@latest chai@latest'' = [''mocha@latest'', ''chai@latest'']
   \<and> split_str CHR '' '' ''mocha chai'' = [''mocha'', ''chai'']"
proof -
  have names: "[''mocha'', ''chai''] \<noteq> [] \<and> (\<forall>dep\<in>set [''mocha'', ''chai'']. CHR '' '' \<notin> set dep)"
    by simp
  have marked: "format_dep [''mocha'', ''chai''] True = ''mocha@latest chai@latest''"
    and plain: "format_dep [''mocha'', ''chai''] False = ''mocha chai''"
    by (simp_all add: format_dep_def)
  from format_dep_latest_marker [of "[''mocha'', ''chai'']"] names
  have "split_str CHR '' '' (format_dep [''mocha'', ''chai''] True)
          = map (\<lambda>dep. dep @ ''@latest'') [''mocha'', ''chai'']
        \<and> split_str CHR '' '' (format_dep [''mocha'', ''chai''] False) = [''mocha'', ''chai'']"
    by blast
  then have "split_str CHR '' '' ''mocha@latest chai@latest'' = [''mocha@latest'', ''chai@latest'']
        \<and> split_str CHR '' '' ''mocha chai'' = [''mocha'', ''chai'']"
    unfolding marked plain by simp
  with names marked plain show ?thesis by simp
qed

section \<open>The update commands\<close>

lemma command_line_flag:
  "command_line e cmd c =
     cmd @ '' '' @ (case flags c of None \<Rightarrow> []
                    | Some f \<Rightarrow> (case (if is_yarn e then yarn f else npm f) of
                                  None \<Rightarrow> [] | Some flag \<Rightarrow> flag))
         @ '' '' @ format_dep (items c) (latest e)"
  by (simp add: command_line_def or_empty_def flag_yarn_def flag_npm_def split: option.splits)

lemma update_lines_npm_project:
  "update_lines npm_project = [''npm install --save express'', ''npm install  react'']"
  by (simp add: update_lines_def npm_project_def dependencies_def keys_or_empty_def
        format_dep_def command_line_flag)

lemma update_lines_verb:
  "list_all (\<lambda>line. take (length verb + 1) line = verb @ '' '')
     (map (command_line e verb) cs)"
  by (simp add: list_all_iff command_line_def)









text \<open>
  Claim C6, as stated, fails: under npm the base command is \<open>npm install\<close> whether or not
  \<open>latest\<close> is set, so a run without \<open>latest\<close> uses an install verb, not an upgrade verb.
\<close>

theorem npm_base_verb_ignores_latest:
  "\<not> latest npm_project
   \<and> fst (select_cmd npm_project []) = Inr ''npm install''
   \<and> fst (select_cmd (npm_project\<lparr>latest := True\<rparr>) []) = Inr ''npm install''
   \<and> take 2 (exec_cmds (snd (main npm_project (printing_shell ''ok''))))
       = [''npm install --save express'', ''npm install  react'']"
proof -
  have "take 2 (exec_cmds (snd (main npm_project (printing_shell ''ok''))))
       = [''npm install --save express'', ''npm install  react'']"
    using main_update_split(1) [OF npm_project_mode, of "printing_shell ''ok''"]
    unfolding npm_project_count update_lines_npm_project
    by (simp add: exec_throws_def)
  then show ?thesis
    by (simp add: select_cmd_def npm_project_def)
qed

text \<open>
  Claim C6, amended. In update mode the base command is \<open>npm install\<close> under npm, whatever
  \<open>latest\<close> is; under yarn it is \<open>yarn add\<close> when \<open>latest\<close> is set and \<open>yarn upgrade\<close>
  otherwise. Every update command of the run starts with that base command and a space.
\<close>

theorem base_verb_by_manager:
  assumes "\<not> setup_mode e" and "is_npm e \<noteq> is_yarn e"
  shows "(let verb = (if is_npm e then ''npm install''
                      else if latest e then ''yarn add'' else ''yarn upgrade'')
          in fst (select_cmd e []) = Inr verb
             \<and> list_all (\<lambda>line. take (length verb + 1) line = verb @ '' '')
                  (take (update_count e) (exec_cmds (snd (main e sh)))))"
proof -
  let ?verb = "if is_npm e then ''npm install'' else if latest e then ''yarn add'' else ''yarn upgrade''"
  have "list_all (\<lambda>line. take (length ?verb + 1) line = ?verb @ '' '') (update_lines e)"
    unfolding update_lines_def by (rule update_lines_verb)
  then have "list_all (\<lambda>line. take (length ?verb + 1) line = ?verb @ '' '')
      (takeWhile (\<lambda>line. \<not> exec_throws line) (update_lines e))"
    unfolding list_all_iff by (meson set_takeWhileD)
  then show ?thesis
    unfolding Let_def main_update_split(1) [OF assms]
    using assms by (simp add: select_cmd_update)
qed

theorem base_verb_by_manager_witness:
  "\<not> setup_mode yarn_project \<and> is_npm yarn_project \<noteq> is_yarn yarn_project
   \<and> latest yarn_project
   \<and> fst (select_cmd yarn_project []) = Inr ''yarn add''
   \<and> fst (select_cmd (yarn_project\<lparr>latest := False\<rparr>) []) = Inr ''yarn upgrade''
   \<and> list_all (\<lambda>line. take (length ''yarn add'' + 1) line = ''yarn add '')
        (take 2 (exec_cmds (snd (main yarn_project (printing_shell ''ok'')))))"
proof -
  have l: "latest yarn_project" "\<not> is_npm yarn_project"
    by (simp_all add: yarn_project_def)
  have other: "\<not> setup_mode (yarn_project\<lparr>latest := False\<rparr>)"
      "is_npm (yarn_project\<lparr>latest := False\<rparr>) \<noteq> is_yarn (yarn_project\<lparr>latest := False\<rparr>)"
    by (simp_all add: yarn_project_def)
  have "fst (select_cmd (yarn_project\<lparr>latest := False\<rparr>) []) = Inr ''yarn upgrade''"
    using base_verb_by_manager [OF other, of "printing_shell ''ok''"]
    by (simp add: Let_def yarn_project_def)
  moreover have "fst (select_cmd yarn_project []) = Inr ''yarn add''
      \<and> list_all (\<lambda>line. take (length ''yarn add'' + 1) line = ''yarn add '')
           (take 2 (exec_cmds (snd (main yarn_project (printing_shell ''ok'')))))"
    using base_verb_by_manager [OF yarn_project_mode, of "printing_shell ''ok''"]
    by (simp add: Let_def l yarn_project_count)
  ultimately show ?thesis using yarn_project_mode l by simp
qed

end
